theory Spec2Isabelle
  imports Complex_Main "HOL-Library.Word"
begin

section \<open>Data model\<close>

text \<open>
  The wire struct shared by the ingestion service, the analysis engine and the persistence
  service (\<^verbatim>\<open>type DataPoint struct\<close>). \<^verbatim>\<open>Value\<close> is a \<^verbatim>\<open>float64\<close> that
  only ever comes out of \<^verbatim>\<open>encoding/json\<close>, which yields finite numbers (no NaN, no
  infinity); a finite float is a rational number, and its comparisons with the
  constants \<open>0\<close> and \<open>80.0\<close> are exact, so the field is a \<^typ>\<open>rat\<close>.
  \<^verbatim>\<open>Timestamp\<close> is an \<^verbatim>\<open>int64\<close>.
\<close>

record DataPoint =
  OrganizationID :: string
  DeviceID :: string
  SensorName :: string
  Value :: rat
  Timestamp :: "64 word"

text \<open>\<^verbatim>\<open>type NotificationTrigger struct\<close> of the analysis engine.\<close>

record NotificationTrigger =
  trig_OrganizationID :: string
  trig_DeviceID :: string
  trig_SensorName :: string
  Condition :: string

section \<open>Analysis engine: the breach detector\<close>

subsection \<open>The counter store\<close>

text \<open>
  The Redis database as the detector uses it: a key holds an integer and, once
  \<^verbatim>\<open>EXPIRE\<close> was applied, a time to live in seconds.
\<close>

record counter =
  cnt :: int
  ttl :: "nat option"

type_synonym redis = "string \<rightharpoonup> counter"

datatype redis_error = RedisDown | Overflow

text \<open>
  \<^verbatim>\<open>rdb.Incr(ctx, key)\<close>. The flag says whether the command reaches the store. There,
  \<^verbatim>\<open>INCR\<close> creates an absent key with value 1 and no time to live, adds one to a present
  key and keeps its time to live, and refuses to go beyond the largest signed 64-bit
  integer.
\<close>

definition Incr :: "bool \<Rightarrow> string \<Rightarrow> redis \<Rightarrow> (redis_error + int) \<times> redis" where
  "Incr ok k r =
     (if \<not> ok then (Inl RedisDown, r)
      else case r k of
             None \<Rightarrow> (Inr 1, r(k \<mapsto> \<lparr>cnt = 1, ttl = None\<rparr>))
           | Some c \<Rightarrow>
               if cnt c = 2 ^ 63 - 1 then (Inl Overflow, r)
               else (Inr (cnt c + 1), r(k \<mapsto> c\<lparr>cnt := cnt c + 1\<rparr>)))"

text \<open>\<^verbatim>\<open>rdb.Expire(ctx, key, d)\<close>, \<open>d\<close> in seconds; the result is ignored by the caller.\<close>

definition Expire :: "bool \<Rightarrow> string \<Rightarrow> nat \<Rightarrow> redis \<Rightarrow> redis" where
  "Expire ok k d r =
     (if \<not> ok then r
      else case r k of None \<Rightarrow> r | Some c \<Rightarrow> r(k \<mapsto> c\<lparr>ttl := Some d\<rparr>))"

text \<open>\<^verbatim>\<open>rdb.Del(ctx, key)\<close>; the result is ignored by the caller.\<close>

definition Del :: "bool \<Rightarrow> string \<Rightarrow> redis \<Rightarrow> redis" where
  "Del ok k r = (if \<not> ok then r else r(k := None))"

subsection \<open>processMessage\<close>

text \<open>
  What the environment answers to the calls made while one message is processed:
  whether each Redis command reaches the store and whether the JetStream publish
  succeeds.
\<close>

record outcome =
  incr_ok :: bool
  expire_ok :: bool
  publish_ok :: bool
  del_ok :: bool

datatype ack = Ack | Nak

text \<open>
  The state the detector acts on: the counter store, the alerts published on JetStream
  (subject and payload, oldest first) and the replies given to the broker for the
  messages processed so far.
\<close>

record world =
  rdb :: redis
  notifications :: "(string \<times> NotificationTrigger) list"
  replies :: "ack list"

definition redisKey :: "DataPoint \<Rightarrow> string" where
  "redisKey dp = ''breach:count:'' @ DeviceID dp @ '':'' @ SensorName dp"

definition notificationSubject :: "DataPoint \<Rightarrow> string" where
  "notificationSubject dp = ''notifications.'' @ OrganizationID dp @ ''.'' @ DeviceID dp"

definition triggerPayload :: "DataPoint \<Rightarrow> NotificationTrigger" where
  "triggerPayload dp =
     \<lparr>trig_OrganizationID = OrganizationID dp,
      trig_DeviceID = DeviceID dp,
      trig_SensorName = SensorName dp,
      Condition = ''Consecutive Temp Threshold Breach''\<rparr>"

text \<open>
  \<^verbatim>\<open>func processMessage(msg *nats.Msg)\<close>. The message is given by the result of
  \<^verbatim>\<open>json.Unmarshal(msg.Data, &dp)\<close>: \<open>None\<close> when it returns an error. When
  \<^verbatim>\<open>Incr(...).Result()\<close> returns an error its value is the zero of \<^verbatim>\<open>int64\<close>, and
  the source goes on after logging the error.
\<close>

definition processMessage :: "outcome \<Rightarrow> DataPoint option \<Rightarrow> world \<Rightarrow> world" where
  "processMessage env msg w =
     (case msg of
        None \<Rightarrow> w\<lparr>replies := replies w @ [Nak]\<rparr>
      | Some dp \<Rightarrow>
          let w' =
            (if SensorName dp = ''temp1'' \<and> Value dp > 80 then
               let (res, r1) = Incr (incr_ok env) (redisKey dp) (rdb w);
                   breachCount = (case res of Inl err \<Rightarrow> 0 | Inr n \<Rightarrow> n);
                   r2 = Expire (expire_ok env) (redisKey dp) (5 * 60) r1
               in if breachCount \<ge> 3 then
                    (if \<not> publish_ok env then w\<lparr>rdb := r2\<rparr>
                     else w\<lparr>rdb := Del (del_ok env) (redisKey dp) r2,
                            notifications :=
                              notifications w @ [(notificationSubject dp, triggerPayload dp)]\<rparr>)
                  else w\<lparr>rdb := r2\<rparr>
             else if SensorName dp = ''temp1'' \<and> Value dp \<le> 80 then
               w\<lparr>rdb := Del (del_ok env) (redisKey dp) (rdb w)\<rparr>
             else w)
          in w'\<lparr>replies := replies w' @ [Ack]\<rparr>)"

text \<open>
  The consumer loop of \<^verbatim>\<open>main\<close> hands the fetched messages to \<^verbatim>\<open>processMessage\<close>
  one after the other; \<open>processAll\<close> is that loop over the deliveries of a finite stretch
  of its run, each with the answers of the environment during it. Time does not pass in the
  model: no key of the store runs out of its time to live during the stretch.
\<close>

fun processAll :: "(outcome \<times> DataPoint option) list \<Rightarrow> world \<Rightarrow> world" where
  "processAll [] w = w"
| "processAll (m # ms) w = processAll ms (processMessage (fst m) (snd m) w)"

text \<open>The breach predicate of \<^verbatim>\<open>processMessage\<close> for the monitored sensor.\<close>

definition breaching :: "DataPoint \<Rightarrow> bool" where
  "breaching dp \<longleftrightarrow> SensorName dp = ''temp1'' \<and> Value dp > 80"


text \<open>
  The value of the counter of a key as the detector's state machine reads it: an absent
  key counts as zero.
\<close>

definition counter_value :: "redis \<Rightarrow> string \<Rightarrow> int" where
  "counter_value r k = (case r k of None \<Rightarrow> 0 | Some c \<Rightarrow> cnt c)"

text \<open>A list of flags has three \<open>True\<close> in a row.\<close>

fun has3 :: "bool list \<Rightarrow> bool" where
  "has3 (a # b # c # xs) = ((a \<and> b \<and> c) \<or> has3 (b # c # xs))"
| "has3 _ = False"

text \<open>
  A delivery during which the environment answers the increment, the publish and the
  delete, and whose message is a reading of sensor \<^verbatim>\<open>temp1\<close> of device \<open>d\<close>.
\<close>

definition calm :: "string \<Rightarrow> (outcome \<times> DataPoint option) \<Rightarrow> bool" where
  "calm d m \<longleftrightarrow> incr_ok (fst m) \<and> publish_ok (fst m) \<and> del_ok (fst m) \<and>
     (case snd m of None \<Rightarrow> False | Some dp \<Rightarrow> DeviceID dp = d \<and> SensorName dp = ''temp1'')"

text \<open>Concrete inputs: the scenario of the specification and an environment without Redis.\<close>

definition all_ok :: outcome where
  "all_ok = \<lparr>incr_ok = True, expire_ok = True, publish_ok = True, del_ok = True\<rparr>"

definition redis_down :: outcome where
  "redis_down = \<lparr>incr_ok = False, expire_ok = False, publish_ok = True, del_ok = False\<rparr>"

definition reading :: "rat \<Rightarrow> DataPoint" where
  "reading v =
     \<lparr>OrganizationID = ''orgA'', DeviceID = ''machine-123'', SensorName = ''temp1'',
      Value = v, Timestamp = 1672531200\<rparr>"

definition scenario :: "DataPoint list" where
  "scenario = map reading [85, 90, 75, 95, 95, 95]"

definition fresh :: world where
  "fresh = \<lparr>rdb = Map.empty, notifications = [], replies = []\<rparr>"

section \<open>Broker: subjects and streams\<close>

text \<open>A subject is a sequence of tokens separated by dots (the split of Go's
  \<^verbatim>\<open>strings.Split(s, ".")\<close>).\<close>

fun tokens :: "string \<Rightarrow> string list" where
  "tokens [] = [[]]"
| "tokens (c # cs) =
     (if c = CHR ''.'' then [] # tokens cs
      else case tokens cs of [] \<Rightarrow> [[c]] | t # ts \<Rightarrow> (c # t) # ts)"

text \<open>
  Modelled from the spec: the broker is outside the repository. The spec binds a stream to
  a subject prefix closed by the suffix wildcard \<^verbatim>\<open>>\<close>. In a pattern, \<^verbatim>\<open>>\<close> as
  the last token stands for one or more tokens, \<^verbatim>\<open>*\<close> stands for exactly one token, and
  every other token stands for itself.
\<close>

fun token_match :: "string list \<Rightarrow> string list \<Rightarrow> bool" where
  "token_match [] [] = True"
| "token_match [] (s # ss) = False"
| "token_match (p # ps) [] = False"
| "token_match (p # ps) (s # ss) =
     (if p = ''>'' \<and> ps = [] then True
      else if p = ''*'' then token_match ps ss
      else p = s \<and> token_match ps ss)"

definition subject_match :: "string \<Rightarrow> string \<Rightarrow> bool" where
  "subject_match pattern subject = token_match (tokens pattern) (tokens subject)"

datatype storage = FileStorage | MemoryStorage

text \<open>The fields of \<^verbatim>\<open>nats.StreamConfig\<close> that the services set.\<close>

record StreamConfig =
  cfg_Name :: string
  Subjects :: "string list"
  Storage :: storage

text \<open>A stream captures a message when one of its subjects matches the message's subject.\<close>

definition captures :: "StreamConfig \<Rightarrow> string \<Rightarrow> bool" where
  "captures cfg subject = list_ex (\<lambda>p. subject_match p subject) (Subjects cfg)"

type_synonym jetstream = "string \<rightharpoonup> StreamConfig"

datatype js_error = Unreachable | NameInUse

text \<open>
  Modelled from the spec: \<^verbatim>\<open>js.AddStream\<close> is the broker's, outside the repository.
  The provisioner answers \<^verbatim>\<open>ok | already-exists | infra-error\<close>, and creating a stream
  that exists already is a no-op success. So: an unreachable broker is an error; a new
  name is added; a name that exists with the same configuration succeeds and changes
  nothing; a name that exists with another configuration is refused.
\<close>

definition AddStream :: "bool \<Rightarrow> StreamConfig \<Rightarrow> jetstream \<Rightarrow> js_error + jetstream" where
  "AddStream up cfg js =
     (if \<not> up then Inl Unreachable
      else case js (cfg_Name cfg) of
             None \<Rightarrow> Inr (js(cfg_Name cfg \<mapsto> cfg))
           | Some old \<Rightarrow> if old = cfg then Inr js else Inl NameInUse)"

section \<open>Credentials\<close>

text \<open>An \<^verbatim>\<open>nkeys.KeyPair\<close>, given by its seed.\<close>

datatype KeyPair = KeyPair string

text \<open>
  The fields of \<^verbatim>\<open>jwt.UserClaims\<close> that carry the subject, the permissions
  (\<^verbatim>\<open>Permissions.Pub\<close> and \<^verbatim>\<open>Permissions.Sub\<close>, each with an allow and a deny list)
  and the validity (\<^verbatim>\<open>Expires\<close>, \<^verbatim>\<open>NotBefore\<close>, Unix seconds, \<open>0\<close> when not set).
\<close>

record UserClaims =
  Subject :: string
  Pub_Allow :: "string list"
  Pub_Deny :: "string list"
  Sub_Allow :: "string list"
  Sub_Deny :: "string list"
  Expires :: int
  NotBefore :: int

text \<open>
  \<^verbatim>\<open>jwt.NewUserClaims(subject)\<close>: for the empty subject the nil pointer (\<open>None\<close>);
  otherwise the subject, and the zero value everywhere else.
\<close>

definition NewUserClaims :: "string \<Rightarrow> UserClaims option" where
  "NewUserClaims subject =
     (if subject = [] then None
      else Some \<lparr>Subject = subject, Pub_Allow = [], Pub_Deny = [], Sub_Allow = [], Sub_Deny = [],
                 Expires = 0, NotBefore = 0\<rparr>)"

text \<open>\<^verbatim>\<open>StringList.Add\<close>: appends a value that is not empty and not in the list yet.\<close>

definition Add :: "string \<Rightarrow> string list \<Rightarrow> string list" where
  "Add v l = (if v \<in> set l \<or> v = [] then l else l @ [v])"

text \<open>
  The two statements with which both \<^verbatim>\<open>registerDeviceHandler\<close> and
  \<^verbatim>\<open>GenerateSASToken\<close> begin to build a credential:
  \<^verbatim>\<open>claims := jwt.NewUserClaims(deviceID)\<close> and
  \<^verbatim>\<open>claims.Permissions.Pub.Allow.Add(fmt.Sprintf("data.%s.%s.>", orgID, deviceID))\<close>.
  On the nil pointer the second statement panics: \<open>None\<close>.
\<close>

definition device_claims :: "string \<Rightarrow> string \<Rightarrow> UserClaims option" where
  "device_claims orgID deviceID =
     (case NewUserClaims deviceID of
        None \<Rightarrow> None
      | Some c \<Rightarrow>
          Some (c\<lparr>Pub_Allow := Add (''data.'' @ orgID @ ''.'' @ deviceID @ ''.>'') (Pub_Allow c)\<rparr>))"

text \<open>
  The claims \<^verbatim>\<open>GenerateSASToken\<close> has built when it calls \<^verbatim>\<open>Encode\<close>: those above
  with \<^verbatim>\<open>Expires\<close> and \<^verbatim>\<open>NotBefore\<close> set from two readings of the clock
  (\<^verbatim>\<open>time.Now()\<close>, Unix seconds). Twelve hours are 43200 seconds.
\<close>

definition sas_claims :: "int \<Rightarrow> int \<Rightarrow> string \<Rightarrow> string \<Rightarrow> UserClaims option" where
  "sas_claims now1 now2 orgID deviceID =
     (case device_claims orgID deviceID of
        None \<Rightarrow> None
      | Some c \<Rightarrow> Some (c\<lparr>Expires := now1 + 12 * 3600, NotBefore := now2\<rparr>))"

text \<open>A signed token: the key that signed it and the claims it carries.\<close>

datatype jwt = JWT (signer: KeyPair) (claims: UserClaims)

datatype encode_error = SubjectNotUserKey | KeypairRequired | Refused

text \<open>
  What every public user key of \<^verbatim>\<open>nkeys\<close> looks like: a text in the base-32 alphabet
  that starts with the letter \<^verbatim>\<open>U\<close>.
\<close>

definition is_base32 :: "char \<Rightarrow> bool" where
  "is_base32 c \<longleftrightarrow> c \<in> set ''ABCDEFGHIJKLMNOPQRSTUVWXYZ234567''"

definition user_key_shape :: "string \<Rightarrow> bool" where
  "user_key_shape s \<longleftrightarrow> (case s of [] \<Rightarrow> False | c # cs \<Rightarrow> c = CHR ''U'') \<and> list_all is_base32 s"

text \<open>
  The checks of the JWT library that the model does not compute: the checksum inside a
  public user key, and whether validating and signing the claims with a key pair succeeds.
\<close>

record jwt_checks =
  user_key_checksum :: "string \<Rightarrow> bool"
  signs :: "KeyPair \<Rightarrow> UserClaims \<Rightarrow> bool"

definition IsValidPublicUserKey :: "jwt_checks \<Rightarrow> string \<Rightarrow> bool" where
  "IsValidPublicUserKey lib s \<longleftrightarrow> user_key_shape s \<and> user_key_checksum lib s"

text \<open>
  \<^verbatim>\<open>claims.Encode(pair)\<close>. The library first refuses a subject that is not a public
  user key, then a missing key pair (Go's \<^verbatim>\<open>nil\<close>), then validates and signs. A token
  that is returned carries the claims as they were given.
\<close>

definition Encode :: "jwt_checks \<Rightarrow> KeyPair option \<Rightarrow> UserClaims \<Rightarrow> encode_error + jwt" where
  "Encode lib pair c =
     (if IsValidPublicUserKey lib (Subject c) then
        (case pair of
           None \<Rightarrow> Inl KeypairRequired
         | Some k \<Rightarrow> if signs lib k c then Inr (JWT k c) else Inl Refused)
      else Inl SubjectNotUserKey)"



section \<open>HTTP services\<close>

text \<open>
  What a handler writes: a status with a text body; the status 400 with the text
  \<^verbatim>\<open>Validation error:\<close> and the validator's report on the fields that failed; the
  status 201 with the JSON object of a device id and its token; or nothing, when the
  handler panics and the server drops the connection (\<open>Aborted\<close>, for which \<open>status\<close>
  is 0, no status of HTTP).
\<close>

datatype reply =
  Reply nat string
| ValidationError "string list"
| DeviceRegistered string jwt
| Aborted

fun status :: "reply \<Rightarrow> nat" where
  "status (Reply n b) = n"
| "status (ValidationError fs) = 400"
| "status (DeviceRegistered d t) = 201"
| "status Aborted = 0"

subsection \<open>Ingestion service\<close>

text \<open>
  \<^verbatim>\<open>validate.Struct(dp)\<close> for the tags of the ingestion service's \<^verbatim>\<open>DataPoint\<close>: every
  field is \<^verbatim>\<open>required\<close>, which a field fails when it holds the zero value of its type
  (the empty string, the number zero). The result lists the fields that failed.
\<close>

definition validate_DataPoint :: "DataPoint \<Rightarrow> string list" where
  "validate_DataPoint dp =
     (if OrganizationID dp = [] then [''OrganizationID''] else []) @
     (if DeviceID dp = [] then [''DeviceID''] else []) @
     (if SensorName dp = [] then [''SensorName''] else []) @
     (if Value dp = 0 then [''Value''] else []) @
     (if Timestamp dp = 0 then [''Timestamp''] else [])"

definition ingest_subject :: "DataPoint \<Rightarrow> string" where
  "ingest_subject dp =
     ''data.'' @ OrganizationID dp @ ''.'' @ DeviceID dp @ ''.'' @ SensorName dp"

text \<open>
  \<^verbatim>\<open>func ingestHandler(w, r)\<close>. The request is its method and the result of decoding its
  body (\<open>None\<close> when \<^verbatim>\<open>Decode\<close> returns an error); \<open>published_ok\<close> says whether
  \<^verbatim>\<open>js.Publish\<close> succeeds. The state is the list of messages published on JetStream,
  each a subject and the data point its payload encodes.
\<close>

definition ingestHandler ::
  "bool \<Rightarrow> string \<Rightarrow> DataPoint option \<Rightarrow> (string \<times> DataPoint) list
     \<Rightarrow> reply \<times> (string \<times> DataPoint) list" where
  "ingestHandler published_ok method decoded published =
     (if method \<noteq> ''POST'' then (Reply 405 ''Only POST method is supported'', published)
      else case decoded of
             None \<Rightarrow> (Reply 400 ''Invalid JSON payload'', published)
           | Some dp \<Rightarrow>
               if validate_DataPoint dp \<noteq> [] then (ValidationError (validate_DataPoint dp), published)
               else if \<not> published_ok then (Reply 500 ''Failed to ingest data'', published)
               else (Reply 200 ''Data ingested successfully'',
                     published @ [(ingest_subject dp, dp)]))"

subsection \<open>Management service\<close>

record Organization =
  ID :: string
  Name :: string

record DeviceRegistration =
  reg_OrganizationID :: string
  reg_Name :: string

definition validate_Organization :: "Organization \<Rightarrow> string list" where
  "validate_Organization org =
     (if ID org = [] then [''ID''] else []) @ (if Name org = [] then [''Name''] else [])"

text \<open>
  The \<^verbatim>\<open>uuid\<close> tag of the validator: 8, 4, 4, 4 and 12 digits of lower-case hexadecimal,
  separated by hyphens.
\<close>

definition is_hex :: "char \<Rightarrow> bool" where
  "is_hex c \<longleftrightarrow> c \<in> set ''0123456789abcdef''"

definition is_uuid :: "string \<Rightarrow> bool" where
  "is_uuid s \<longleftrightarrow>
     length s = 36 \<and>
     list_all is_hex (take 8 s) \<and> s ! 8 = CHR ''-'' \<and>
     list_all is_hex (take 4 (drop 9 s)) \<and> s ! 13 = CHR ''-'' \<and>
     list_all is_hex (take 4 (drop 14 s)) \<and> s ! 18 = CHR ''-'' \<and>
     list_all is_hex (take 4 (drop 19 s)) \<and> s ! 23 = CHR ''-'' \<and>
     list_all is_hex (drop 24 s)"

definition validate_DeviceRegistration :: "DeviceRegistration \<Rightarrow> string list" where
  "validate_DeviceRegistration reg =
     (if reg_OrganizationID reg = [] \<or> \<not> is_uuid (reg_OrganizationID reg)
      then [''OrganizationID''] else []) @
     (if reg_Name reg = [] then [''Name''] else [])"

text \<open>The stream that \<^verbatim>\<open>createOrganizationHandler\<close> asks for.\<close>

definition organization_stream :: "string \<Rightarrow> StreamConfig" where
  "organization_stream org_id =
     \<lparr>cfg_Name = ''ORG_'' @ org_id @ ''_STREAM'',
      Subjects = [''data.'' @ org_id @ ''.>''],
      Storage = FileStorage\<rparr>"

text \<open>
  \<^verbatim>\<open>func createOrganizationHandler(w, r)\<close>: the decoded body, whether the broker can be
  reached, and the streams of the broker before and after.
\<close>

definition createOrganizationHandler ::
  "bool \<Rightarrow> Organization option \<Rightarrow> jetstream \<Rightarrow> reply \<times> jetstream" where
  "createOrganizationHandler up decoded js =
     (case decoded of
        None \<Rightarrow> (Reply 400 ''Invalid JSON payload'', js)
      | Some org \<Rightarrow>
          if validate_Organization org \<noteq> [] then (ValidationError (validate_Organization org), js)
          else case AddStream up (organization_stream (ID org)) js of
                 Inl err \<Rightarrow> (Reply 500 ''Failed to create organization stream'', js)
               | Inr js' \<Rightarrow>
                   (Reply 201 (''Organization '' @ [CHR 0x27] @ ID org @ [CHR 0x27] @
                               '' created successfully.''), js'))"

text \<open>
  \<^verbatim>\<open>func registerDeviceHandler(w, r)\<close>, with the package variable \<^verbatim>\<open>signingKey\<close>, the
  identifier that \<^verbatim>\<open>uuid.New().String()\<close> returns and the decoded body as arguments.
\<close>

definition registerDeviceHandler ::
  "jwt_checks \<Rightarrow> KeyPair option \<Rightarrow> string \<Rightarrow> DeviceRegistration option \<Rightarrow> reply" where
  "registerDeviceHandler lib signingKey deviceID decoded =
     (case decoded of
        None \<Rightarrow> Reply 400 ''Invalid JSON payload''
      | Some reg \<Rightarrow>
          if validate_DeviceRegistration reg \<noteq> []
          then ValidationError (validate_DeviceRegistration reg)
          else
            (case device_claims (reg_OrganizationID reg) deviceID of
               None \<Rightarrow> Aborted
             | Some c \<Rightarrow>
                 (case Encode lib signingKey c of
                    Inl err \<Rightarrow> Reply 500 ''Failed to register device''
                  | Inr token \<Rightarrow> DeviceRegistered deviceID token)))"

text \<open>
  The start of the management service's \<^verbatim>\<open>main\<close>, up to serving requests. Each failed
  step ends the process (\<^verbatim>\<open>log.Fatal\<close>). The key pair of \<^verbatim>\<open>nkeys.CreateUser()\<close> is
  bound to the local \<^verbatim>\<open>kp\<close>, whose seed is logged; the package variable
  \<^verbatim>\<open>signingKey\<close> is assigned nowhere and keeps the zero value \<^verbatim>\<open>nil\<close>. A process that
  serves is given by the value of \<^verbatim>\<open>signingKey\<close> its handlers read.
\<close>

record startup =
  nats_connect :: bool
  jetstream_context :: bool
  create_user :: "KeyPair option"
  listen :: bool

datatype process = Fatal | Serving "KeyPair option"

definition management_main :: "startup \<Rightarrow> process" where
  "management_main env =
     (if \<not> nats_connect env then Fatal
      else if \<not> jetstream_context env then Fatal
      else case create_user env of
             None \<Rightarrow> Fatal
           | Some kp \<Rightarrow> if \<not> listen env then Fatal else Serving None)"

subsection \<open>Persistence service and analysis engine: the stream they read\<close>

text \<open>The stream that the persistence service's \<^verbatim>\<open>main\<close> asks for before it subscribes.\<close>

definition persistence_stream :: StreamConfig where
  "persistence_stream =
     \<lparr>cfg_Name = ''ORG_orgA_STREAM'', Subjects = [''data.>''], Storage = FileStorage\<rparr>"


text \<open>The library whose uncomputed checks all pass.\<close>

definition lenient :: jwt_checks where
  "lenient = \<lparr>user_key_checksum = (\<lambda>s. True), signs = (\<lambda>k c. True)\<rparr>"

definition some_key :: KeyPair where
  "some_key = KeyPair ''SUAKEY''"

definition some_org :: string where
  "some_org = ''123e4567-e89b-12d3-a456-426614174000''"

definition some_device :: string where
  "some_device = ''0b0e7a52-3f5c-4c1e-9d27-6a1f0c2b9e11''"

definition some_registration :: DeviceRegistration where
  "some_registration = \<lparr>reg_OrganizationID = some_org, reg_Name = ''Temp Sensor 1''\<rparr>"

definition good_start :: startup where
  "good_start =
     \<lparr>nats_connect = True, jetstream_context = True, create_user = Some some_key, listen = True\<rparr>"


definition stray :: DataPoint where
  "stray = \<lparr>OrganizationID = ''orgB'', DeviceID = ''machine-9'', SensorName = ''temp1'',
            Value = 85, Timestamp = 1672531200\<rparr>"

definition acorp :: Organization where
  "acorp = \<lparr>ID = ''orgA'', Name = ''A Corp''\<rparr>"

section \<open>Properties of the breach detector\<close>


lemma has3_index:
  "has3 bs \<longleftrightarrow> (\<exists>i. i + 2 < length bs \<and> bs ! i \<and> bs ! (i + 1) \<and> bs ! (i + 2))"
proof (induction bs rule: has3.induct)
  case (1 a b c xs)
  let ?ys = "a # b # c # xs"
  have "(\<exists>i. i + 2 < length ?ys \<and> ?ys ! i \<and> ?ys ! (i + 1) \<and> ?ys ! (i + 2)) \<longleftrightarrow>
        ((a \<and> b \<and> c) \<or> (\<exists>j. j + 2 < length (b # c # xs) \<and> (b # c # xs) ! j \<and> (b # c # xs) ! (j + 1) \<and> (b # c # xs) ! (j + 2)))"
    (is "?L \<longleftrightarrow> ?R")
  proof
    assume ?L
    then obtain i where i: "i + 2 < length ?ys" "?ys ! i" "?ys ! (i + 1)" "?ys ! (i + 2)" by blast
    show ?R
    proof (cases i)
      case 0
      with i show ?thesis by simp
    next
      case (Suc j)
      with i have "j + 2 < length (b # c # xs) \<and> (b # c # xs) ! j \<and> (b # c # xs) ! (j + 1) \<and> (b # c # xs) ! (j + 2)"
        by simp
      then show ?thesis by blast
    qed
  next
    assume ?R
    then show ?L
    proof
      assume "a \<and> b \<and> c"
      then have "0 + 2 < length ?ys \<and> ?ys ! 0 \<and> ?ys ! (0 + 1) \<and> ?ys ! (0 + 2)" by simp
      then show ?L by blast
    next
      assume "\<exists>j. j + 2 < length (b # c # xs) \<and> (b # c # xs) ! j \<and> (b # c # xs) ! (j + 1) \<and> (b # c # xs) ! (j + 2)"
      then obtain j where "j + 2 < length (b # c # xs)" "(b # c # xs) ! j" "(b # c # xs) ! (j + 1)" "(b # c # xs) ! (j + 2)" by blast
      then have "Suc j + 2 < length ?ys \<and> ?ys ! Suc j \<and> ?ys ! (Suc j + 1) \<and> ?ys ! (Suc j + 2)" by simp
      then show ?L by blast
    qed
  qed
  with 1 show ?case by simp
qed simp_all

lemma step_quiet:
  assumes "SensorName dp = ''temp1''" "\<not> Value dp > 80" "del_ok env"
  shows "notifications (processMessage env (Some dp) w) = notifications w"
    and "counter_value (rdb (processMessage env (Some dp) w)) (redisKey dp) = 0"
    and "rdb (processMessage env (Some dp) w) (redisKey dp) = None"
  using assms by (simp_all add: processMessage_def Del_def counter_value_def)

lemma step_breach:
  assumes "SensorName dp = ''temp1''" "Value dp > 80" "incr_ok env" "publish_ok env" "del_ok env"
    and "0 \<le> counter_value (rdb w) (redisKey dp)" "counter_value (rdb w) (redisKey dp) \<le> 2"
  shows "notifications (processMessage env (Some dp) w) =
           notifications w @ (if counter_value (rdb w) (redisKey dp) + 1 = 3
                              then [(notificationSubject dp, triggerPayload dp)] else [])"
    and "counter_value (rdb (processMessage env (Some dp) w)) (redisKey dp) =
           (if counter_value (rdb w) (redisKey dp) + 1 = 3 then 0
            else counter_value (rdb w) (redisKey dp) + 1)"
  using assms
  by (auto simp add: processMessage_def Incr_def Expire_def Del_def counter_value_def Let_def
      split: option.splits)


lemma has3_after_reset:
  "c \<le> 2 \<Longrightarrow> has3 (replicate c True @ False # bs) = has3 bs"
proof -
  assume "c \<le> 2"
  then have "c = 0 \<or> c = 1 \<or> c = 2" by arith
  then show ?thesis
    by (cases bs rule: has3.cases) (auto simp: numeral_2_eq_2)
qed

lemma processMessage_appends:
  "\<exists>ys. notifications (processMessage env msg w) = notifications w @ ys"
  by (simp add: processMessage_def Let_def split: option.splits prod.splits)

lemma processAll_appends:
  "\<exists>ys. notifications (processAll msgs w) = notifications w @ ys"
proof (induction msgs arbitrary: w)
  case Nil
  show ?case by simp
next
  case (Cons m ms)
  obtain ys where 1: "notifications (processMessage (fst m) (snd m) w) = notifications w @ ys"
    using processMessage_appends by blast
  obtain zs where 2: "notifications (processAll ms (processMessage (fst m) (snd m) w)) =
      notifications (processMessage (fst m) (snd m) w) @ zs"
    using Cons.IH by blast
  from 1 2 show ?case by simp
qed

lemma calm_step:
  assumes "calm d m" "0 \<le> counter_value (rdb w) (''breach:count:'' @ d @ '':temp1'')"
    "counter_value (rdb w) (''breach:count:'' @ d @ '':temp1'') \<le> 2"
  shows "notifications (processMessage (fst m) (snd m) w) =
           notifications w @
             (if breaching (the (snd m)) \<and> counter_value (rdb w) (''breach:count:'' @ d @ '':temp1'') + 1 = 3
              then [(notificationSubject (the (snd m)), triggerPayload (the (snd m)))] else [])"
    and "counter_value (rdb (processMessage (fst m) (snd m) w)) (''breach:count:'' @ d @ '':temp1'') =
           (if breaching (the (snd m))
            then (if counter_value (rdb w) (''breach:count:'' @ d @ '':temp1'') + 1 = 3 then 0
                  else counter_value (rdb w) (''breach:count:'' @ d @ '':temp1'') + 1)
            else 0)"
proof -
  from assms(1) obtain dp where dp: "snd m = Some dp" "DeviceID dp = d" "SensorName dp = ''temp1''"
    and ok: "incr_ok (fst m)" "publish_ok (fst m)" "del_ok (fst m)"
    by (auto simp: calm_def split: option.splits)
  have k: "redisKey dp = ''breach:count:'' @ d @ '':temp1''"
    using dp by (simp add: redisKey_def)
  show "notifications (processMessage (fst m) (snd m) w) =
           notifications w @
             (if breaching (the (snd m)) \<and> counter_value (rdb w) (''breach:count:'' @ d @ '':temp1'') + 1 = 3
              then [(notificationSubject (the (snd m)), triggerPayload (the (snd m)))] else [])"
  proof (cases "Value dp > 80")
    case True
    then show ?thesis
      using step_breach(1)[OF dp(3) True ok, of w] assms(2,3) dp k
      by (simp add: breaching_def)
  next
    case False
    then show ?thesis
      using step_quiet(1)[OF dp(3) False ok(3), of w] dp by (simp add: breaching_def)
  qed
  show "counter_value (rdb (processMessage (fst m) (snd m) w)) (''breach:count:'' @ d @ '':temp1'') =
           (if breaching (the (snd m))
            then (if counter_value (rdb w) (''breach:count:'' @ d @ '':temp1'') + 1 = 3 then 0
                  else counter_value (rdb w) (''breach:count:'' @ d @ '':temp1'') + 1)
            else 0)"
  proof (cases "Value dp > 80")
    case True
    then show ?thesis
      using step_breach(2)[OF dp(3) True ok, of w] assms(2,3) dp k
      by (simp add: breaching_def)
  next
    case False
    then show ?thesis
      using step_quiet(2)[OF dp(3) False ok(3), of w] dp k by (simp add: breaching_def)
  qed
qed

lemma calm_inv:
  assumes "\<forall>m\<in>set msgs. calm d m" "0 \<le> counter_value (rdb w) (''breach:count:'' @ d @ '':temp1'')"
    "counter_value (rdb w) (''breach:count:'' @ d @ '':temp1'') \<le> 2"
  shows "0 \<le> counter_value (rdb (processAll msgs w)) (''breach:count:'' @ d @ '':temp1'') \<and>
         counter_value (rdb (processAll msgs w)) (''breach:count:'' @ d @ '':temp1'') \<le> 2"
  using assms
proof (induction msgs arbitrary: w)
  case Nil
  then show ?case by simp
next
  case (Cons m ms)
  have c: "calm d m" using Cons.prems(1) by simp
  have "0 \<le> counter_value (rdb (processMessage (fst m) (snd m) w)) (''breach:count:'' @ d @ '':temp1'') \<and>
        counter_value (rdb (processMessage (fst m) (snd m) w)) (''breach:count:'' @ d @ '':temp1'') \<le> 2"
    using calm_step(2)[OF c Cons.prems(2,3)] Cons.prems(2,3) by auto
  then show ?case using Cons.IH[of "processMessage (fst m) (snd m) w"] Cons.prems(1) by simp
qed

lemma calm_run:
  assumes "\<forall>m\<in>set msgs. calm d m"
    "counter_value (rdb w) (''breach:count:'' @ d @ '':temp1'') = int c" "c \<le> 2"
  shows "notifications (processAll msgs w) \<noteq> notifications w \<longleftrightarrow>
         has3 (replicate c True @ map (\<lambda>m. breaching (the (snd m))) msgs)"
  using assms
proof (induction msgs arbitrary: w c)
  case Nil
  then have "c = 0 \<or> c = 1 \<or> c = 2" by arith
  then show ?case by (auto simp: numeral_2_eq_2)
next
  case (Cons m ms)
  let ?k = "''breach:count:'' @ d @ '':temp1''"
  let ?w = "processMessage (fst m) (snd m) w"
  have c: "calm d m" and rest: "\<forall>m\<in>set ms. calm d m" using Cons.prems(1) by simp_all
  have b: "0 \<le> counter_value (rdb w) ?k" "counter_value (rdb w) ?k \<le> 2"
    using Cons.prems(2,3) by simp_all
  note n = calm_step(1)[OF c b] and v = calm_step(2)[OF c b]
  obtain ys where ys: "notifications (processAll ms ?w) = notifications ?w @ ys"
    using processAll_appends by blast
  show ?case
  proof (cases "breaching (the (snd m))")
    case False
    have "counter_value (rdb ?w) ?k = int 0" using v False by simp
    from Cons.IH[OF rest this] have "notifications (processAll ms ?w) \<noteq> notifications ?w \<longleftrightarrow>
       has3 (map (\<lambda>m. breaching (the (snd m))) ms)" by simp
    moreover have "notifications ?w = notifications w" using n False by simp
    ultimately show ?thesis using False has3_after_reset[OF Cons.prems(3)] by simp
  next
    case True
    show ?thesis
    proof (cases "c = 2")
      case True2: True
      have "notifications ?w = notifications w @ [(notificationSubject (the (snd m)), triggerPayload (the (snd m)))]"
        using n True True2 Cons.prems(2) by simp
      with ys have "notifications (processAll (m # ms) w) \<noteq> notifications w" by simp
      moreover have "has3 (replicate c True @ map (\<lambda>m. breaching (the (snd m))) (m # ms))"
        using True True2 by (simp add: numeral_2_eq_2)
      ultimately show ?thesis by simp
    next
      case False
      then have c1: "Suc c \<le> 2" using Cons.prems(3) by arith
      have "counter_value (rdb ?w) ?k = int (Suc c)" using v True False Cons.prems(2) by simp
      from Cons.IH[OF rest this c1] have "notifications (processAll ms ?w) \<noteq> notifications ?w \<longleftrightarrow>
        has3 (replicate (Suc c) True @ map (\<lambda>m. breaching (the (snd m))) ms)" .
      moreover have "notifications ?w = notifications w" using n True False Cons.prems(2) by simp
      ultimately have "notifications (processAll (m # ms) w) \<noteq> notifications w \<longleftrightarrow>
        has3 (replicate (Suc c) True @ map (\<lambda>m. breaching (the (snd m))) ms)" by simp
      moreover have "replicate c True @ map (\<lambda>m. breaching (the (snd m))) (m # ms) =
          replicate (Suc c) True @ map (\<lambda>m. breaching (the (snd m))) ms"
        using True by (simp add: replicate_app_Cons_same)
      ultimately show ?thesis by (simp only:)
    qed
  qed
qed

lemma processAll_append: "processAll (xs @ ys) w = processAll ys (processAll xs w)"
  by (induction xs arbitrary: w) simp_all


lemma zip_calm:
  assumes "length envs = length dps"
    and "\<forall>e\<in>set envs. incr_ok e \<and> publish_ok e \<and> del_ok e"
    and "\<forall>dp\<in>set dps. DeviceID dp = d \<and> SensorName dp = ''temp1''"
  shows "\<forall>m\<in>set (zip envs (map Some dps)). calm d m"
proof
  fix m assume "m \<in> set (zip envs (map Some dps))"
  then have "(fst m, snd m) \<in> set (zip envs (map Some dps))" by simp
  then have "fst m \<in> set envs" "snd m \<in> set (map Some dps)"
    by (rule set_zip_leftD, rule set_zip_rightD)
  then show "calm d m" using assms(2,3) by (auto simp: calm_def)
qed

lemma zip_readings:
  "length envs = length dps \<Longrightarrow>
   map (\<lambda>m. breaching (the (snd m))) (zip envs (map Some dps)) = map breaching dps"
  by (induction envs dps rule: list_induct2) simp_all

text \<open>
  C1. Readings of sensor \<^verbatim>\<open>temp1\<close> of one device are processed in order, starting with
  the counter of the device absent, while the store answers the increment and the delete
  and the broker accepts the publish (and, as everywhere in \<open>processAll\<close>, no counter
  expires meanwhile). Then an alert is published if and only if three readings in a row
  exceed 80. Moreover each reading publishes exactly one alert when its incremented count
  is 3, and none otherwise.
\<close>

theorem alert_iff_three_consecutive_breaches:
  assumes "length envs = length dps"
    and "\<forall>e\<in>set envs. incr_ok e \<and> publish_ok e \<and> del_ok e"
    and "\<forall>dp\<in>set dps. DeviceID dp = d \<and> SensorName dp = ''temp1''"
    and "rdb w (''breach:count:'' @ d @ '':temp1'') = None"
  shows "(notifications (processAll (zip envs (map Some dps)) w) \<noteq> notifications w \<longleftrightarrow>
          (\<exists>i. i + 2 < length dps \<and>
               breaching (dps ! i) \<and> breaching (dps ! (i + 1)) \<and> breaching (dps ! (i + 2)))) \<and>
         (\<forall>n<length dps.
            notifications (processAll (take (Suc n) (zip envs (map Some dps))) w) =
            notifications (processAll (take n (zip envs (map Some dps))) w) @
              (if breaching (dps ! n) \<and>
                  counter_value (rdb (processAll (take n (zip envs (map Some dps))) w))
                    (''breach:count:'' @ d @ '':temp1'') + 1 = 3
               then [(notificationSubject (dps ! n), triggerPayload (dps ! n))] else []))"
proof
  let ?k = "''breach:count:'' @ d @ '':temp1''"
  let ?msgs = "zip envs (map Some dps)"
  have calm: "\<forall>m\<in>set ?msgs. calm d m" using zip_calm[OF assms(1,2,3)] .
  have zero: "counter_value (rdb w) ?k = int 0" using assms(4) by (simp add: counter_value_def)
  have "notifications (processAll ?msgs w) \<noteq> notifications w \<longleftrightarrow> has3 (map breaching dps)"
    using calm_run[OF calm zero] zip_readings[OF assms(1)] by simp
  also have "\<dots> \<longleftrightarrow> (\<exists>i. i + 2 < length dps \<and>
               breaching (dps ! i) \<and> breaching (dps ! (i + 1)) \<and> breaching (dps ! (i + 2)))"
    by (simp add: has3_index cong: conj_cong)
  finally show "notifications (processAll ?msgs w) \<noteq> notifications w \<longleftrightarrow>
          (\<exists>i. i + 2 < length dps \<and>
               breaching (dps ! i) \<and> breaching (dps ! (i + 1)) \<and> breaching (dps ! (i + 2)))" .
  show "\<forall>n<length dps.
            notifications (processAll (take (Suc n) ?msgs) w) =
            notifications (processAll (take n ?msgs) w) @
              (if breaching (dps ! n) \<and>
                  counter_value (rdb (processAll (take n ?msgs) w)) ?k + 1 = 3
               then [(notificationSubject (dps ! n), triggerPayload (dps ! n))] else [])"
  proof (intro allI impI)
    fix n assume n: "n < length dps"
    then have len: "n < length ?msgs" using assms(1) by simp
    have nth: "?msgs ! n = (envs ! n, Some (dps ! n))" using n assms(1) by simp
    have cn: "calm d (?msgs ! n)" using calm len nth_mem by blast
    have pre: "\<forall>m\<in>set (take n ?msgs). calm d m" using calm by (meson in_set_takeD)
    have b: "0 \<le> counter_value (rdb (processAll (take n ?msgs) w)) ?k"
            "counter_value (rdb (processAll (take n ?msgs) w)) ?k \<le> 2"
      using calm_inv[OF pre, of w] zero by simp_all
    have "processAll (take (Suc n) ?msgs) w =
          processMessage (fst (?msgs ! n)) (snd (?msgs ! n)) (processAll (take n ?msgs) w)"
      using len by (simp add: take_Suc_conv_app_nth processAll_append del: zip_map2 zip_map_map)
    then show "notifications (processAll (take (Suc n) ?msgs) w) =
            notifications (processAll (take n ?msgs) w) @
              (if breaching (dps ! n) \<and>
                  counter_value (rdb (processAll (take n ?msgs) w)) ?k + 1 = 3
               then [(notificationSubject (dps ! n), triggerPayload (dps ! n))] else [])"
      using calm_step(1)[OF cn b] nth by simp
  qed
qed

theorem alert_iff_three_consecutive_breaches_witness:
  "length (replicate 6 all_ok) = length scenario \<and>
   list_all (\<lambda>e. incr_ok e \<and> publish_ok e \<and> del_ok e) (replicate 6 all_ok) \<and>
   list_all (\<lambda>dp. DeviceID dp = ''machine-123'' \<and> SensorName dp = ''temp1'') scenario \<and>
   rdb fresh (''breach:count:'' @ ''machine-123'' @ '':temp1'') = None \<and>
   notifications (processAll (zip (replicate 6 all_ok) (map Some scenario)) fresh) \<noteq> notifications fresh \<and>
   notifications (processAll (take 2 (zip (replicate 6 all_ok) (map Some scenario))) fresh) = []"
proof -
  have h1: "length (replicate 6 all_ok) = length scenario" by (simp add: scenario_def)
  have h2: "\<forall>e\<in>set (replicate 6 all_ok). incr_ok e \<and> publish_ok e \<and> del_ok e"
    by (simp add: all_ok_def)
  have h3: "\<forall>dp\<in>set scenario. DeviceID dp = ''machine-123'' \<and> SensorName dp = ''temp1''"
    by (simp add: scenario_def reading_def)
  have h4: "rdb fresh (''breach:count:'' @ ''machine-123'' @ '':temp1'') = None"
    by (simp add: fresh_def)
  have run: "3 + 2 < length scenario \<and> breaching (scenario ! 3) \<and>
             breaching (scenario ! (3 + 1)) \<and> breaching (scenario ! (3 + 2))"
    by (simp add: scenario_def reading_def breaching_def)
  note main = alert_iff_three_consecutive_breaches[OF h1 h2 h3 h4]
  have a: "notifications (processAll (zip (replicate 6 all_ok) (map Some scenario)) fresh) \<noteq>
           notifications fresh"
    using main run by blast
  have n0: "notifications (processAll (take (Suc 0) (zip (replicate 6 all_ok) (map Some scenario))) fresh) = []"
    using conjunct2[OF main, rule_format, of 0]
    by (simp add: scenario_def fresh_def counter_value_def)
  have "notifications (processAll (take (Suc 1) (zip (replicate 6 all_ok) (map Some scenario))) fresh) =
     notifications (processAll (take 1 (zip (replicate 6 all_ok) (map Some scenario))) fresh) @
     (if breaching (scenario ! 1) \<and>
                  counter_value (rdb (processAll (take 1 (zip (replicate 6 all_ok) (map Some scenario))) fresh))
                    (''breach:count:'' @ ''machine-123'' @ '':temp1'') + 1 = 3
               then [(notificationSubject (scenario ! 1), triggerPayload (scenario ! 1))] else [])"
    using conjunct2[OF main, rule_format, of 1] by (simp add: scenario_def)
  moreover have "counter_value (rdb (processAll (take 1 (zip (replicate 6 all_ok) (map Some scenario))) fresh))
                    (''breach:count:'' @ ''machine-123'' @ '':temp1'') = 1"
    by (simp add: scenario_def reading_def fresh_def all_ok_def processMessage_def Incr_def Expire_def
        redisKey_def counter_value_def numeral_eq_Suc)
  ultimately have n1: "notifications (processAll (take 2 (zip (replicate 6 all_ok) (map Some scenario))) fresh) = []"
    using n0 by (simp add: numeral_2_eq_2)
  from h1 h2 h3 h4 a n1 show ?thesis by (simp only: list_all_iff) blast
qed

text \<open>
  C2. A reading of sensor \<^verbatim>\<open>temp1\<close> that does not exceed 80 deletes the counter of its
  device and sensor, whatever the counter held before, when the delete reaches the store.
\<close>

theorem nonbreaching_reading_deletes_counter:
  assumes "SensorName dp = ''temp1''" and "Value dp \<le> 80" and "del_ok env"
  shows "rdb (processMessage env (Some dp) w) (redisKey dp) = None"
  using assms by (simp add: processMessage_def Del_def)

theorem nonbreaching_reading_deletes_counter_witness:
  "SensorName (reading 75) = ''temp1'' \<and> Value (reading 75) \<le> 80 \<and> del_ok all_ok \<and>
   rdb (processMessage all_ok (Some (reading 75))
          (fresh\<lparr>rdb := [redisKey (reading 75) \<mapsto> \<lparr>cnt = 2, ttl = Some 300\<rparr>]\<rparr>))
       (redisKey (reading 75)) = None"
  using nonbreaching_reading_deletes_counter[of "reading 75" all_ok
      "fresh\<lparr>rdb := [redisKey (reading 75) \<mapsto> \<lparr>cnt = 2, ttl = Some 300\<rparr>]\<rparr>"]
  by (simp add: reading_def all_ok_def)


lemma alert_only_on_breach:
  assumes "notifications (processMessage env (Some dp) w) \<noteq> notifications w"
  shows "SensorName dp = ''temp1''" and "Value dp > 80" and "publish_ok env"
    and "notifications (processMessage env (Some dp) w) =
         notifications w @ [(notificationSubject dp, triggerPayload dp)]"
    and "rdb (processMessage env (Some dp) w) =
         Del (del_ok env) (redisKey dp)
           (Expire (expire_ok env) (redisKey dp) (5 * 60)
              (snd (Incr (incr_ok env) (redisKey dp) (rdb w))))"
  using assms
  by (auto simp add: processMessage_def Let_def split: if_splits prod.splits)

text \<open>
  C3. When processing a reading has published an alert and its delete reached the store,
  the counter of the reading's key is absent; the next breaching reading of that key then
  leaves the counter at 1 and publishes no alert.
\<close>

theorem counter_absent_after_alert:
  assumes "notifications (processMessage env (Some dp) w) \<noteq> notifications w"
    and "del_ok env"
  shows "rdb (processMessage env (Some dp) w) (redisKey dp) = None \<and>
         (\<forall>env' dp'. redisKey dp' = redisKey dp \<and> breaching dp' \<and> incr_ok env' \<longrightarrow>
            counter_value (rdb (processMessage env' (Some dp') (processMessage env (Some dp) w)))
              (redisKey dp) = 1 \<and>
            notifications (processMessage env' (Some dp') (processMessage env (Some dp) w)) =
              notifications (processMessage env (Some dp) w))"
proof -
  let ?w = "processMessage env (Some dp) w"
  have gone: "rdb ?w (redisKey dp) = None"
    using alert_only_on_breach(5)[OF assms(1)] assms(2) by (simp add: Del_def)
  have "counter_value (rdb (processMessage env' (Some dp') ?w)) (redisKey dp) = 1 \<and>
        notifications (processMessage env' (Some dp') ?w) = notifications ?w"
    if "redisKey dp' = redisKey dp" "breaching dp'" "incr_ok env'" for env' dp'
    using that gone
    by (simp add: processMessage_def breaching_def Incr_def Expire_def counter_value_def)
  with gone show ?thesis by blast
qed

theorem counter_absent_after_alert_witness:
  "notifications (processMessage all_ok (Some (reading 95))
      (fresh\<lparr>rdb := [redisKey (reading 95) \<mapsto> \<lparr>cnt = 2, ttl = Some 300\<rparr>]\<rparr>)) \<noteq>
   notifications (fresh\<lparr>rdb := [redisKey (reading 95) \<mapsto> \<lparr>cnt = 2, ttl = Some 300\<rparr>]\<rparr>) \<and>
   del_ok all_ok \<and>
   rdb (processMessage all_ok (Some (reading 95))
      (fresh\<lparr>rdb := [redisKey (reading 95) \<mapsto> \<lparr>cnt = 2, ttl = Some 300\<rparr>]\<rparr>))
     (redisKey (reading 95)) = None \<and>
   counter_value (rdb (processMessage all_ok (Some (reading 85))
      (processMessage all_ok (Some (reading 95))
        (fresh\<lparr>rdb := [redisKey (reading 95) \<mapsto> \<lparr>cnt = 2, ttl = Some 300\<rparr>]\<rparr>))))
     (redisKey (reading 95)) = 1"
proof -
  let ?w = "fresh\<lparr>rdb := [redisKey (reading 95) \<mapsto> \<lparr>cnt = 2, ttl = Some 300\<rparr>]\<rparr>"
  have h1: "notifications (processMessage all_ok (Some (reading 95)) ?w) \<noteq> notifications ?w"
    by (simp add: processMessage_def all_ok_def reading_def fresh_def Incr_def Expire_def)
  have h2: "del_ok all_ok" by (simp add: all_ok_def)
  have k: "redisKey (reading 85) = redisKey (reading 95)" by (simp add: redisKey_def reading_def)
  have b: "breaching (reading 85)" by (simp add: breaching_def reading_def)
  have i: "incr_ok all_ok" by (simp add: all_ok_def)
  from counter_absent_after_alert[OF h1 h2] k b i h1 h2 show ?thesis by blast
qed

lemma decoded_message_is_acknowledged:
  "replies (processMessage env (Some dp) w) = replies w @ [Ack]"
  by (simp add: processMessage_def Let_def split: prod.splits)

text \<open>
  C4. The claim is that a message whose Redis increment fails is negatively acknowledged
  and not acknowledged. The source logs the error and goes on: with Redis unreachable, a
  breaching reading changes nothing in the store, publishes nothing, and is acknowledged.
\<close>

theorem failed_increment_is_acknowledged:
  "processMessage redis_down (Some (reading 85)) fresh = fresh\<lparr>replies := [Ack]\<rparr>"
  by (simp add: processMessage_def redis_down_def reading_def fresh_def Incr_def Expire_def)

section \<open>Properties of subjects and streams\<close>

lemma tokens_not_Nil: "tokens s \<noteq> []"
  by (induction s) (auto split: list.splits)

lemma tokens_segment:
  "CHR ''.'' \<notin> set t \<Longrightarrow> tokens (t @ CHR ''.'' # r) = t # tokens r"
  by (induction t) (auto split: list.splits)

lemma tokens_data: "tokens (''data.'' @ s) = ''data'' # tokens s"
  by simp

lemma tokens_wild: "CHR ''.'' \<notin> set b \<Longrightarrow> tokens (''data.'' @ b @ ''.>'') = [''data'', b, ''>'']"
  using tokens_segment[of b "''>''"] by simp

lemma tokens_ingest:
  "CHR ''.'' \<notin> set (OrganizationID dp) \<Longrightarrow>
   tokens (ingest_subject dp) =
     ''data'' # OrganizationID dp # tokens (DeviceID dp @ ''.'' @ SensorName dp)"
  using tokens_segment[of "OrganizationID dp" "DeviceID dp @ ''.'' @ SensorName dp"]
  by (simp add: ingest_subject_def)

lemma persistence_captures_all: "captures persistence_stream (ingest_subject dp)"
proof -
  obtain t ts where "tokens (OrganizationID dp @ ''.'' @ DeviceID dp @ ''.'' @ SensorName dp) = t # ts"
    using tokens_not_Nil by (meson list.exhaust)
  then show ?thesis
    by (simp add: captures_def persistence_stream_def subject_match_def ingest_subject_def)
qed

text \<open>
  C5, as amended. For an organization identifier \<open>b\<close> that is one subject token (no dot)
  and not the wildcard \<^verbatim>\<open>*\<close>, the stream provisioned for \<open>b\<close> never captures a data
  point that the ingestion service publishes for another organization whose identifier has
  no dot. The stream of the persistence service is bound to \<^verbatim>\<open>data.>\<close> and captures the
  data points of every organization.
\<close>

theorem organization_stream_isolated:
  assumes "OrganizationID dp \<noteq> b"
    and "CHR ''.'' \<notin> set (OrganizationID dp)" and "CHR ''.'' \<notin> set b" and "b \<noteq> ''*''"
  shows "\<not> captures (organization_stream b) (ingest_subject dp) \<and>
         captures persistence_stream (ingest_subject dp)"
proof -
  obtain t ts where r: "tokens (DeviceID dp @ ''.'' @ SensorName dp) = t # ts"
    using tokens_not_Nil by (meson list.exhaust)
  have "\<not> token_match [''data'', b, ''>''] (''data'' # OrganizationID dp # t # ts)"
    using assms(1,4) by auto
  then have "\<not> captures (organization_stream b) (ingest_subject dp)"
    using tokens_wild[OF assms(3)] tokens_ingest[OF assms(2)] r
    by (simp add: captures_def organization_stream_def subject_match_def del: token_match.simps)
  then show ?thesis using persistence_captures_all by blast
qed

theorem organization_stream_isolated_witness:
  "OrganizationID stray \<noteq> ''orgA'' \<and> CHR ''.'' \<notin> set (OrganizationID stray) \<and>
   CHR ''.'' \<notin> set ''orgA'' \<and> ''orgA'' \<noteq> ''*'' \<and>
   \<not> captures (organization_stream ''orgA'') (ingest_subject stray) \<and>
   captures persistence_stream (ingest_subject stray)"
  using organization_stream_isolated[of stray "''orgA''"] by (simp add: stray_def)

text \<open>
  C5 as stated fails twice: the persistence service's stream, which bears the name
  of organization \<^verbatim>\<open>orgA\<close>'s stream, captures a data point of \<^verbatim>\<open>orgB\<close>; and the
  stream provisioned for \<^verbatim>\<open>orgB\<close> captures a data point of the organization
  \<^verbatim>\<open>orgB.eu\<close>.
\<close>

theorem tenant_streams_overlap_counterexample:
  "OrganizationID stray \<noteq> ''orgA'' \<and>
   cfg_Name persistence_stream = cfg_Name (organization_stream ''orgA'') \<and>
   captures persistence_stream (ingest_subject stray) \<and>
   OrganizationID (stray\<lparr>OrganizationID := ''orgB.eu''\<rparr>) \<noteq> ''orgB'' \<and>
   captures (organization_stream ''orgB'') (ingest_subject (stray\<lparr>OrganizationID := ''orgB.eu''\<rparr>))"
  by (simp add: stray_def persistence_stream_def organization_stream_def captures_def
      subject_match_def ingest_subject_def)





section \<open>Properties of the management and ingestion services\<close>

lemma some_org_uuid: "is_uuid some_org"
  by (simp add: is_uuid_def some_org_def is_hex_def)


lemma some_registration_valid: "validate_DeviceRegistration some_registration = []"
  using some_org_uuid
  by (simp add: validate_DeviceRegistration_def some_registration_def some_org_def)


lemma device_claims_built:
  "deviceID \<noteq> [] \<Longrightarrow>
   device_claims orgID deviceID =
     Some \<lparr>Subject = deviceID, Pub_Allow = [''data.'' @ orgID @ ''.'' @ deviceID @ ''.>''],
           Pub_Deny = [], Sub_Allow = [], Sub_Deny = [], Expires = 0, NotBefore = 0\<rparr>"
  by (simp add: device_claims_def NewUserClaims_def Add_def)






lemma registration_claims_never_expire:
  "device_claims orgID deviceID = Some c \<Longrightarrow> Expires c = 0"
  by (auto simp add: device_claims_def NewUserClaims_def split: if_splits option.splits)

lemma sas_claims_expire:
  "sas_claims now1 now2 orgID deviceID = Some c \<Longrightarrow> Expires c = now1 + 43200"
  by (auto simp add: sas_claims_def split: option.splits)


lemma serving_without_key: "management_main env = Serving key \<Longrightarrow> key = None"
  by (auto simp add: management_main_def split: if_splits option.splits)

lemma registration_without_key:
  "validate_DeviceRegistration reg = [] \<Longrightarrow> deviceID \<noteq> [] \<Longrightarrow>
   registerDeviceHandler lib None deviceID (Some reg) = Reply 500 ''Failed to register device''"
  by (simp add: registerDeviceHandler_def device_claims_built Encode_def)

text \<open>
  C8. The claim is that a signing key that is unavailable ends the process at startup and
  never shows as an error of a registration request. A start in which every step succeeds
  serves with \<^verbatim>\<open>signingKey\<close> unset, and a valid registration request is then answered
  with status 500.
\<close>

theorem missing_key_is_a_request_error:
  "management_main good_start = Serving None \<and>
   registerDeviceHandler lenient None some_device (Some some_registration) =
     Reply 500 ''Failed to register device''"
proof -
  have "some_device \<noteq> []" by (simp add: some_device_def)
  then show ?thesis
    using some_registration_valid
    by (simp add: management_main_def good_start_def registerDeviceHandler_def
        device_claims_built Encode_def)
qed

lemma AddStream_present:
  "AddStream up cfg js = Inr js' \<Longrightarrow> js' (cfg_Name cfg) = Some cfg"
  by (auto simp add: AddStream_def split: if_splits option.splits)

text \<open>
  C9. After a request to create an organization was answered with status 201, a further
  request for the same organization identifier, with the broker reachable, is answered with
  status 201 again and leaves the streams of the broker as they are.
\<close>

theorem provisioning_is_idempotent:
  assumes "createOrganizationHandler up (Some org) js = (r, js')" and "status r = 201"
    and "ID org' = ID org" and "Name org' \<noteq> []"
  shows "createOrganizationHandler True (Some org') js' =
           (Reply 201 (''Organization '' @ [CHR 0x27] @ ID org @ [CHR 0x27] @
                       '' created successfully.''), js')"
proof -
  have valid: "validate_Organization org = []"
    using assms(1,2) by (auto simp add: createOrganizationHandler_def split: if_splits sum.splits)
  then have added: "AddStream up (organization_stream (ID org)) js = Inr js'"
    using assms(1,2) by (auto simp add: createOrganizationHandler_def split: if_splits sum.splits)
  have "AddStream True (organization_stream (ID org)) js' = Inr js'"
    using AddStream_present[OF added] by (simp add: AddStream_def)
  moreover have "validate_Organization org' = []"
    using valid assms(3,4) by (auto simp add: validate_Organization_def split: if_splits)
  ultimately show ?thesis using assms(3) by (simp add: createOrganizationHandler_def)
qed

theorem provisioning_is_idempotent_witness:
  "status (fst (createOrganizationHandler True (Some acorp) Map.empty)) = 201 \<and>
   snd (createOrganizationHandler True (Some acorp) Map.empty)
     (cfg_Name (organization_stream ''orgA'')) = Some (organization_stream ''orgA'') \<and>
   createOrganizationHandler True (Some (acorp\<lparr>Name := ''A Corporation''\<rparr>))
       (snd (createOrganizationHandler True (Some acorp) Map.empty)) =
     (Reply 201 (''Organization '' @ [CHR 0x27] @ ''orgA'' @ [CHR 0x27] @
                 '' created successfully.''),
      snd (createOrganizationHandler True (Some acorp) Map.empty))"
proof -
  let ?first = "createOrganizationHandler True (Some acorp) Map.empty"
  have h1: "?first = (fst ?first, snd ?first)" by simp
  have h2: "status (fst ?first) = 201"
    by (simp add: createOrganizationHandler_def validate_Organization_def acorp_def
        AddStream_def organization_stream_def)
  have h3: "ID (acorp\<lparr>Name := ''A Corporation''\<rparr>) = ID acorp" by simp
  have h4: "Name (acorp\<lparr>Name := ''A Corporation''\<rparr>) \<noteq> []" by simp
  have s: "snd ?first (cfg_Name (organization_stream ''orgA'')) = Some (organization_stream ''orgA'')"
    by (simp add: createOrganizationHandler_def validate_Organization_def acorp_def
        AddStream_def organization_stream_def)
  have i: "ID acorp = ''orgA''" by (simp add: acorp_def)
  from provisioning_is_idempotent[OF h1 h2 h3 h4] h2 s i show ?thesis by simp
qed

text \<open>
  C10. A request to \<^verbatim>\<open>/ingest\<close> whose body decodes to a data point with value 0 or
  timestamp 0 is answered, when it is a POST, with the validation error of status 400 that
  names the field; whatever its method, nothing is published and the status is not 200.
\<close>

theorem zero_reading_is_rejected:
  assumes "Value dp = 0 \<or> Timestamp dp = 0"
  shows "ingestHandler ok ''POST'' (Some dp) published =
           (ValidationError (validate_DataPoint dp), published) \<and>
         status (fst (ingestHandler ok ''POST'' (Some dp) published)) = 400 \<and>
         (''Value'' \<in> set (validate_DataPoint dp) \<or> ''Timestamp'' \<in> set (validate_DataPoint dp)) \<and>
         (\<forall>method. snd (ingestHandler ok method (Some dp) published) = published \<and>
                   status (fst (ingestHandler ok method (Some dp) published)) \<noteq> 200)"
proof -
  have bad: "validate_DataPoint dp \<noteq> []"
    and which: "''Value'' \<in> set (validate_DataPoint dp) \<or> ''Timestamp'' \<in> set (validate_DataPoint dp)"
    using assms by (auto simp add: validate_DataPoint_def)
  then show ?thesis by (simp add: ingestHandler_def)
qed

theorem zero_reading_is_rejected_witness:
  "Value (reading 0) = 0 \<and>
   ingestHandler True ''POST'' (Some (reading 0)) [] = (ValidationError [''Value''], []) \<and>
   ingestHandler True ''POST'' (Some (reading 85)) [] =
     (Reply 200 ''Data ingested successfully'', [(ingest_subject (reading 85), reading 85)])"
proof -
  have h: "Value (reading 0) = 0 \<or> Timestamp (reading 0) = 0" by (simp add: reading_def)
  have v: "validate_DataPoint (reading 0) = [''Value'']"
    by (simp add: validate_DataPoint_def reading_def)
  have g: "ingestHandler True ''POST'' (Some (reading 85)) [] =
     (Reply 200 ''Data ingested successfully'', [(ingest_subject (reading 85), reading 85)])"
    by (simp add: ingestHandler_def validate_DataPoint_def reading_def)
  from zero_reading_is_rejected[OF h, of True "[]"] v g show ?thesis
    by (simp add: reading_def)
qed

end
